theory Spec2Isabelle
  imports Main "HOL-Library.Sublist" "HOL-Library.Multiset"
begin

section \<open>JavaScript values and objects\<close>

text \<open>
  A JavaScript string is a \<^typ>\<open>string\<close>: a list of code units, of which only the
  dot \<open>CHR ''.''\<close> and the decimal digits are ever inspected. A \<open>Date\<close> is the instant it
  holds.
\<close>

type_synonym instant = nat

datatype jsval =
    JUndefined
  | JNull
  | JBoolean bool
  | JNumber int
  | JString string
  | JDate instant

text \<open>JavaScript's truthiness, as \<open>!x\<close>, \<open>x && y\<close>, \<open>x || y\<close> and \<open>if (x)\<close> read it.\<close>

fun truthy :: "jsval \<Rightarrow> bool" where
  "truthy JUndefined = False"
| "truthy JNull = False"
| "truthy (JBoolean b) = b"
| "truthy (JNumber n) = (n \<noteq> 0)"
| "truthy (JString s) = (s \<noteq> [])"
| "truthy (JDate t) = True"

text \<open>
  A plain object is the association list of its own enumerable properties, in the order
  in which \<open>Object.keys\<close> lists them: the keys that are array indices first, by ascending
  value, then the other keys in the order of their creation.
\<close>

type_synonym 'v obj = "(string \<times> 'v) list"

definition Object_keys :: "'v obj \<Rightarrow> string list" where
  "Object_keys ob = map fst ob"

text \<open>
  An array index is the canonical decimal numeral of a number below \<open>2^32 - 1\<close>:
  digits only, no leading zero but for \<open>0\<close> itself.
\<close>

definition is_digit :: "char \<Rightarrow> bool" where
  "is_digit ch = (ch \<in> set ''0123456789'')"

definition digit_value :: "char \<Rightarrow> nat" where
  "digit_value ch = of_char ch - 48"

definition decimal :: "string \<Rightarrow> nat" where
  "decimal s = foldl (\<lambda>n ch. 10 * n + digit_value ch) 0 s"

definition array_index :: "string \<Rightarrow> nat option" where
  "array_index s =
     (if s \<noteq> [] \<and> list_all is_digit s \<and> (s = ''0'' \<or> hd s \<noteq> CHR ''0'')
         \<and> decimal s < 4294967295
      then Some (decimal s) else None)"

text \<open>Whether a new key \<open>k\<close> is listed before an existing key \<open>k'\<close>.\<close>

definition key_before :: "string \<Rightarrow> string \<Rightarrow> bool" where
  "key_before k k' =
     (case array_index k of
        None \<Rightarrow> False
      | Some i \<Rightarrow> (case array_index k' of None \<Rightarrow> True | Some j \<Rightarrow> i < j))"

fun obj_insert :: "string \<Rightarrow> 'v \<Rightarrow> 'v obj \<Rightarrow> 'v obj" where
  "obj_insert k v [] = [(k, v)]"
| "obj_insert k v (p # ps) =
     (if key_before k (fst p) then (k, v) # p # ps else p # obj_insert k v ps)"

text \<open>
  Setting a property, as an object literal with computed keys, \<open>{[k1]: v1, [k2]: v2}\<close>,
  does key by key: a key that is already there keeps its place and takes the new value,
  a new key takes its place in the order of the keys.
\<close>

definition obj_set :: "string \<Rightarrow> 'v \<Rightarrow> 'v obj \<Rightarrow> 'v obj" where
  "obj_set k v ob =
     (if k \<in> set (Object_keys ob)
      then map (\<lambda>p. if fst p = k then (k, v) else p) ob
      else obj_insert k v ob)"

text \<open>
  Reading a property, \<open>ob[name]\<close>, goes through the prototype chain: an own property
  first, then the member of that name of \<open>Object.prototype\<close>, the prototype of a plain
  object; otherwise the read gives \<open>undefined\<close>.
\<close>

definition Object_prototype :: "string list" where
  "Object_prototype =
     [''constructor'', ''__defineGetter__'', ''__defineSetter__'', ''hasOwnProperty'',
      ''__lookupGetter__'', ''__lookupSetter__'', ''isPrototypeOf'',
      ''propertyIsEnumerable'', ''toString'', ''valueOf'', ''__proto__'',
      ''toLocaleString'']"

datatype 'v property = Missing | Own 'v | Inherited string

definition obj_get :: "'v obj \<Rightarrow> string \<Rightarrow> 'v property" where
  "obj_get ob name =
     (case map_of ob name of
        Some v \<Rightarrow> Own v
      | None \<Rightarrow> if name \<in> set Object_prototype then Inherited name else Missing)"

section \<open>Array and string primitives used by the matcher\<close>

text \<open>\<open>Array.prototype.indexOf\<close>: the first index holding the element, or \<open>-1\<close>.\<close>

fun indexOf :: "'a list \<Rightarrow> 'a \<Rightarrow> int" where
  "indexOf [] x = - 1"
| "indexOf (y # ys) x =
     (if y = x then 0 else (let i = indexOf ys x in if i < 0 then - 1 else i + 1))"

text \<open>
  \<open>String.prototype.split\<close> on a one-unit separator: \<open>''''.split('.')\<close> is \<open>['''']\<close>,
  \<open>'a.b'.split('.')\<close> is \<open>['a', 'b']\<close>, \<open>'.'.split('.')\<close> is \<open>['''', '''']\<close>.
\<close>

fun split :: "char \<Rightarrow> string \<Rightarrow> string list" where
  "split sep [] = [[]]"
| "split sep (c # cs) =
     (if c = sep then [] # split sep cs
      else (case split sep cs of [] \<Rightarrow> [[c]] | w # ws \<Rightarrow> (c # w) # ws))"

text \<open>\<open>Array.prototype.join\<close>: the elements with the separator between them.\<close>

fun join :: "string \<Rightarrow> string list \<Rightarrow> string" where
  "join sep [] = []"
| "join sep [w] = w"
| "join sep (w # v # ws) = w @ sep @ join sep (v # ws)"

text \<open>
  \<open>xs.splice(-1, 1)\<close> removes the last element of \<open>xs\<close> in place (and nothing from an
  empty array); what is left of \<open>xs\<close> is \<^term>\<open>butlast xs\<close>.
\<close>

definition splice_last :: "'a list \<Rightarrow> 'a list" where
  "splice_last xs = butlast xs"

text \<open>\<open>Array.prototype.some\<close>: left to right, stopping at the first hit.\<close>

fun some :: "('a \<Rightarrow> bool) \<Rightarrow> 'a list \<Rightarrow> bool" where
  "some p [] = False"
| "some p (x # xs) = (if p x then True else some p xs)"

text \<open>The elements on which \<open>some\<close> calls its callback, in order.\<close>

fun some_calls :: "('a \<Rightarrow> bool) \<Rightarrow> 'a list \<Rightarrow> 'a list" where
  "some_calls p [] = []"
| "some_calls p (x # xs) = (if p x then [x] else x # some_calls p xs)"

section \<open>The blacklist matcher (\<open>src/utils/index.js\<close>)\<close>

text \<open>
  The three lines that pop the last segment of a path:
  \<open>newPath = field.split('.'); newPath.splice(-1, 1); newField = newPath.join('.')\<close>.
\<close>

definition newField :: "string \<Rightarrow> string" where
  "newField field = join ''.'' (splice_last (split CHR ''.'' field))"

lemma split_not_Nil: "split c s \<noteq> []"
  by (induction s) (auto split: list.splits)

lemma join_split: "join [c] (split c s) = s"
proof (induction s)
  case Nil
  show ?case by simp
next
  case (Cons a s)
  obtain w ws where sp: "split c s = w # ws"
    using split_not_Nil [of c s] by (cases "split c s") auto
  show ?case
  proof (cases "a = c")
    case True
    with Cons sp show ?thesis by simp
  next
    case False
    with Cons sp show ?thesis by (cases ws) auto
  qed
qed

lemma length_join_butlast: "xs \<noteq> [] \<Longrightarrow> butlast xs \<noteq> [] \<Longrightarrow>
    length (join sep (butlast xs)) < length (join sep xs) \<or> sep = []"
proof (induction sep xs rule: join.induct)
  case (1 sep)
  then show ?case by simp
next
  case (2 sep w)
  then show ?case by simp
next
  case (3 sep w v ws)
  show ?case
  proof (cases ws)
    case Nil
    then show ?thesis by auto
  next
    case (Cons u us)
    with 3 show ?thesis by auto
  qed
qed

lemma length_newField: "field \<noteq> [] \<Longrightarrow> length (newField field) < length field"
proof -
  assume ne: "field \<noteq> []"
  let ?xs = "split CHR ''.'' field"
  have j: "join ''.'' ?xs = field" by (rule join_split)
  show ?thesis
  proof (cases "butlast ?xs = []")
    case True
    with ne show ?thesis by (simp add: newField_def splice_last_def)
  next
    case False
    from length_join_butlast [OF split_not_Nil False, of "''.''"] j
    show ?thesis by (simp add: newField_def splice_last_def)
  qed
qed

text \<open>
  \<open>fieldIsBlacklisted(blacklist, field)\<close>: the field itself, then each of its ancestors,
  is looked up in the blacklist by \<open>indexOf\<close>; the empty string ends the walk with
  \<open>false\<close>. (\<open>!field || !field.length\<close> is, on a string, that it is empty.)
\<close>

function fieldIsBlacklisted :: "string list \<Rightarrow> string \<Rightarrow> bool" where
  "fieldIsBlacklisted blacklist field =
     (if field = [] \<or> length field = 0 then False
      else if indexOf blacklist field \<ge> 0 then True
      else fieldIsBlacklisted blacklist (newField field))"
  by pat_completeness auto
termination
  by (relation "measure (\<lambda>(blacklist, field). length field)") (auto simp: length_newField)

declare fieldIsBlacklisted.simps [simp del]

text \<open>
  \<open>blacklistedFieldExists(blacklist = [], fieldsToCheck = {})\<close>. An argument that is
  \<open>undefined\<close> (\<^const>\<open>None\<close>) takes its default. The guard returns before
  \<open>Object.keys(fieldsToCheck).some(...)\<close> is reached.
\<close>

definition blacklistedFieldExists :: "string list option \<Rightarrow> 'v obj option \<Rightarrow> bool" where
  "blacklistedFieldExists blacklist_arg fieldsToCheck_arg =
     (let blacklist = (case blacklist_arg of None \<Rightarrow> [] | Some b \<Rightarrow> b);
          fieldsToCheck = (case fieldsToCheck_arg of None \<Rightarrow> [] | Some f \<Rightarrow> f)
      in if length blacklist = 0 \<or> length (Object_keys fieldsToCheck) = 0 then False
         else some (\<lambda>field. fieldIsBlacklisted blacklist field) (Object_keys fieldsToCheck))"

text \<open>
  The same function, returning instead of its result the fields on which it calls
  \<open>fieldIsBlacklisted\<close>, in the order of the calls.
\<close>

definition blacklistedFieldExists_calls :: "string list option \<Rightarrow> 'v obj option \<Rightarrow> string list" where
  "blacklistedFieldExists_calls blacklist_arg fieldsToCheck_arg =
     (let blacklist = (case blacklist_arg of None \<Rightarrow> [] | Some b \<Rightarrow> b);
          fieldsToCheck = (case fieldsToCheck_arg of None \<Rightarrow> [] | Some f \<Rightarrow> f)
      in if length blacklist = 0 \<or> length (Object_keys fieldsToCheck) = 0 then []
         else some_calls (\<lambda>field. fieldIsBlacklisted blacklist field) (Object_keys fieldsToCheck))"

section \<open>Errors and the clause extraction (\<open>src/utils/index.js\<close>)\<close>

text \<open>Every \<open>throw new Error(...)\<close> of the repository, named after its message.\<close>

datatype error =
    Schema_is_required
  | Failed_to_update_schema_field_is_undefined
  | updateOperation_is_undefined
  | operator_is_undefined

type_synonym clause = "jsval obj"
type_synonym update_op = "clause obj"

text \<open>
  \<open>getUpdateFields(updateOperation, operator)\<close>. The operation is a plain object or
  absent (\<open>undefined\<close>, \<open>null\<close>); the operator is a string or absent, and \<open>!operator\<close>
  also holds of the empty string. The result is the property read
  \<open>updateOperation[operator]\<close>.
\<close>

definition getUpdateFields :: "'c obj option \<Rightarrow> string option \<Rightarrow> error + 'c property" where
  "getUpdateFields updateOperation operator =
     (case updateOperation of
        None \<Rightarrow> Inl updateOperation_is_undefined
      | Some uo \<Rightarrow>
          (case operator of
             None \<Rightarrow> Inl operator_is_undefined
           | Some name \<Rightarrow>
               if name = [] then Inl operator_is_undefined else Inr (obj_get uo name)))"

section \<open>Constants\<close>

text \<open>
  Modelled from the spec: the module \<open>./constants\<close> (\<open>MONGO_OPERATORS\<close>, \<open>DATA_FIELDS\<close>)
  is not among the sources. The direct-set operator is the \<open>$set\<close> of the documentation
  of \<open>getUpdateFields\<close> and of the clause the update hook writes.
\<close>

definition SET_OPERATOR :: string where
  "SET_OPERATOR = ''$set''"

text \<open>
  Modelled from the spec: the missing \<open>MONGO_OPERATORS.SET_ON_INSERT_OPERATOR\<close>, the
  set-on-insert operator \<open>$setOnInsert\<close>.
\<close>

definition SET_ON_INSERT_OPERATOR :: string where
  "SET_ON_INSERT_OPERATOR = ''$setOnInsert''"

text \<open>
  Modelled from the spec: the missing \<open>DATA_FIELDS.DEFAULT_CREATED_AT_FIELD\<close>; the
  created-field defaults to \<open>createdAt\<close>.
\<close>

definition DEFAULT_CREATED_AT_FIELD :: string where
  "DEFAULT_CREATED_AT_FIELD = ''createdAt''"

text \<open>
  Modelled from the spec: the missing \<open>DATA_FIELDS.DEFAULT_UPDATED_AT_FIELD\<close>; the
  modified-field defaults to \<open>updatedAt\<close>.
\<close>

definition DEFAULT_UPDATED_AT_FIELD :: string where
  "DEFAULT_UPDATED_AT_FIELD = ''updatedAt''"

section \<open>The host: clock, documents, queries and the schema\<close>

text \<open>
  \<open>new Date()\<close> reads the clock. The clock is state: the readings it will give, and how
  many have been taken. Each \<open>new Date()\<close> returns the next reading and counts it.
\<close>

record clock =
  time_at :: "nat \<Rightarrow> instant"
  reads :: nat

definition new_Date :: "clock \<Rightarrow> instant \<times> clock" where
  "new_Date clk = (time_at clk (reads clk), clk\<lparr>reads := Suc (reads clk)\<rparr>)"

text \<open>
  What one hook invocation can touch: its receiver (\<open>this\<close>: the document of a save, the
  query of an update), the clock, and the continuation \<open>next\<close>, of which the calls are
  counted.
\<close>

record 'a invocation =
  receiver :: 'a
  clock :: clock
  next_calls :: nat

definition call_next :: "'a invocation \<Rightarrow> 'a invocation" where
  "call_next st = st\<lparr>next_calls := Suc (next_calls st)\<rparr>"

text \<open>
  A document is read and written by property name; a property that was never set reads
  as \<^const>\<open>JUndefined\<close>.
\<close>

type_synonym document = "string \<Rightarrow> jsval"

text \<open>
  A query gives its pending update operation through \<open>getUpdate()\<close>, and takes further
  clauses for the same write through \<open>update(conditions, doc)\<close>. The query keeps the
  calls it received.
\<close>

record query =
  getUpdate :: "update_op option"
  update_calls :: "(jsval obj \<times> update_op) list"

definition query_update :: "jsval obj \<Rightarrow> update_op \<Rightarrow> query \<Rightarrow> query" where
  "query_update conditions doc q = q\<lparr>update_calls := update_calls q @ [(conditions, doc)]\<rparr>"

text \<open>
  Modelled from the spec: the host's \<open>update\<close> method is not among the sources. The
  specification has it append additional clauses to the same write. So each write of a
  document passed to it is set in the pending operation, in the clause of its operator;
  a path already written under that operator takes the new value, as an object holds
  one value for a key.
\<close>

fun merge_clause :: "clause \<Rightarrow> clause \<Rightarrow> clause" where
  "merge_clause pending [] = pending"
| "merge_clause pending (w # ws) = merge_clause (obj_set (fst w) (snd w) pending) ws"

text \<open>
  Modelled from the spec: the same for a whole document of the host's \<open>update\<close>, clause
  by clause; an operator the pending operation does not have yet gets a clause.
\<close>

fun merge_update :: "update_op \<Rightarrow> update_op \<Rightarrow> update_op" where
  "merge_update pending [] = pending"
| "merge_update pending (cl # cls) =
     merge_update
       (obj_set (fst cl)
          (merge_clause (case map_of pending (fst cl) of None \<Rightarrow> [] | Some c0 \<Rightarrow> c0) (snd cl))
          pending)
       cls"

text \<open>
  Modelled from the spec: the write the host makes in the end, the operation it was
  given with the documents of the \<open>update\<close> calls merged into it in order.
\<close>

definition pending_write :: "query \<Rightarrow> update_op" where
  "pending_write q =
     foldl (\<lambda>pending call. merge_update pending (snd call))
       (case getUpdate q of None \<Rightarrow> [] | Some uo \<Rightarrow> uo) (update_calls q)"


datatype hook =
    DocumentHook "document invocation \<Rightarrow> document invocation"
  | QueryHook "query invocation \<Rightarrow> error option \<times> query invocation"

text \<open>
  Of the schema the plugin reads only whether a property is truthy
  (\<open>!!schema[name]\<close>); it calls \<open>schema.add({[field]: Date})\<close> and
  \<open>schema.pre(event, hook)\<close>, and those calls are logged in order.
\<close>

record schema =
  has_property :: "string \<Rightarrow> bool"

datatype schema_call = Add string | Pre string hook

section \<open>The plugin (\<open>HappyMongooseTimestamps\<close>)\<close>

text \<open>
  The repository holds two revisions of the plugin module with a blacklist:
  \<open>src/index.js\<close>, and a later one with \<open>forceCreateHook\<close> and \<open>findOneAndUpdate\<close>. Their
  constructor, \<open>handleUpdateSchema\<close> and \<open>updateSchema\<close> are the same text. What differs
  carries the suffix \<open>_src\<close> for \<open>src/index.js\<close> and no suffix for the later revision.
  A third, earlier draft of the module, with neither blacklist nor switches, is not
  modelled.
\<close>

record options =
  opt_blacklist :: "string list option"
  opt_createdAt :: "string option"
  opt_updatedAt :: "string option"
  shouldUpdateSchema :: bool
  disableSaveHook :: bool
  forceCreateHook :: bool
  disableUpdateHook :: bool
  disableUpdateOneHook :: bool
  disableFindOneAndUpdate :: bool

text \<open>The default \<open>options = {}\<close>: every option absent.\<close>

definition empty_options :: options where
  "empty_options =
     \<lparr>opt_blacklist = None, opt_createdAt = None, opt_updatedAt = None,
      shouldUpdateSchema = False, disableSaveHook = False, forceCreateHook = False,
      disableUpdateHook = False, disableUpdateOneHook = False,
      disableFindOneAndUpdate = False\<rparr>"

text \<open>The instance: the fields behind the symbols \<open>$schema\<close>, \<open>$options\<close>, ...\<close>

record plugin =
  p_schema :: schema
  p_options :: options
  p_blacklist :: "string list"
  p_createdAt :: string
  p_updatedAt :: string

text \<open>\<open>options.createdAt || DEFAULT\<close>: an absent or empty name gives the default.\<close>

definition or_default :: "string option \<Rightarrow> string \<Rightarrow> string" where
  "or_default given dflt =
     (case given of None \<Rightarrow> dflt | Some s \<Rightarrow> if s = [] then dflt else s)"

definition updateSchema ::
    "plugin \<Rightarrow> string \<Rightarrow> schema_call list \<Rightarrow> error option \<times> schema_call list" where
  "updateSchema this field calls =
     (if field = [] then (Some Failed_to_update_schema_field_is_undefined, calls)
      else (None, calls @ [Add field]))"

definition handleUpdateSchema ::
    "plugin \<Rightarrow> schema_call list \<Rightarrow> error option \<times> schema_call list" where
  "handleUpdateSchema this calls =
     (let createdAtFieldExists = has_property (p_schema this) (p_createdAt this);
          updateFieldExists = has_property (p_schema this) (p_updatedAt this)
      in case (if \<not> createdAtFieldExists then updateSchema this (p_createdAt this) calls
               else (None, calls)) of
           (Some e, calls1) \<Rightarrow> (Some e, calls1)
         | (None, calls1) \<Rightarrow>
             if \<not> updateFieldExists then updateSchema this (p_updatedAt this) calls1
             else (None, calls1))"

text \<open>
  The constructor: the check of the schema comes first; nothing is assigned and no
  method of the schema is called before it.
\<close>

definition constructor ::
    "schema option \<Rightarrow> options option \<Rightarrow> schema_call list \<Rightarrow>
       (error + plugin) \<times> schema_call list" where
  "constructor schema_arg options_arg calls =
     (let opts = (case options_arg of None \<Rightarrow> empty_options | Some given \<Rightarrow> given)
      in case schema_arg of
           None \<Rightarrow> (Inl Schema_is_required, calls)
         | Some sch \<Rightarrow>
             (let this = \<lparr>p_schema = sch, p_options = opts,
                          p_blacklist = (case opt_blacklist opts of None \<Rightarrow> [] | Some b \<Rightarrow> b),
                          p_createdAt = or_default (opt_createdAt opts) DEFAULT_CREATED_AT_FIELD,
                          p_updatedAt = or_default (opt_updatedAt opts) DEFAULT_UPDATED_AT_FIELD\<rparr>
              in if shouldUpdateSchema (p_options this)
                 then (case handleUpdateSchema this calls of
                         (Some e, calls1) \<Rightarrow> (Inl e, calls1)
                       | (None, calls1) \<Rightarrow> (Inr this, calls1))
                 else (Inr this, calls)))"

subsection \<open>The save hook\<close>

text \<open>
  \<open>saveFunc\<close> of the later revision, as a function of what its closure captured. The
  guard \<open>canEnterSaveFunction\<close> returns through \<open>next()\<close> before the clock is read.
\<close>

definition saveFunc ::
    "string \<Rightarrow> string \<Rightarrow> bool \<Rightarrow> bool \<Rightarrow> document invocation \<Rightarrow> document invocation" where
  "saveFunc createdAtField updatedAtField shouldDisableSaveHook shouldForceCreateHook st =
     (let canEnterSaveFunction =
            \<not> (shouldDisableSaveHook \<and>
               (\<not> shouldForceCreateHook \<or> \<not> truthy (receiver st ''isNew'')))
      in if \<not> canEnterSaveFunction then call_next st
         else
           (let (now, clk) = new_Date (clock st);
                this = receiver st;
                this1 = (if truthy (this ''isNew'')
                         then (this(createdAtField := JDate now))(updatedAtField := JDate now)
                         else this(updatedAtField := JDate now))
            in call_next (st\<lparr>receiver := this1, clock := clk\<rparr>)))"

definition getSaveHook :: "plugin \<Rightarrow> document invocation \<Rightarrow> document invocation" where
  "getSaveHook this =
     saveFunc (p_createdAt this) (p_updatedAt this)
       (disableSaveHook (p_options this)) (forceCreateHook (p_options this))"

text \<open>\<open>saveFunc\<close> of \<open>src/index.js\<close>: no guard, the clock is read first.\<close>

definition saveFunc_src ::
    "string \<Rightarrow> string \<Rightarrow> document invocation \<Rightarrow> document invocation" where
  "saveFunc_src createdAtField updatedAtField st =
     (let (now, clk) = new_Date (clock st);
          this = receiver st;
          this1 = (if truthy (this ''isNew'')
                   then (this(createdAtField := JDate now))(updatedAtField := JDate now)
                   else this(updatedAtField := JDate now))
      in call_next (st\<lparr>receiver := this1, clock := clk\<rparr>))"

definition getSaveHook_src :: "plugin \<Rightarrow> document invocation \<Rightarrow> document invocation" where
  "getSaveHook_src this = saveFunc_src (p_createdAt this) (p_updatedAt this)"

subsection \<open>The update hook\<close>

text \<open>
  \<open>updateFunc\<close> of the later revision. The clock is read first; a throw of
  \<open>getUpdateFields\<close> leaves the hook there. In \<open>x && blacklistedFieldExists(blacklist, x)\<close>
  an absent clause is falsy; a clause of the operation's own is an object, hence truthy;
  a member of \<open>Object.prototype\<close> is truthy and has no enumerable key of its own. The
  clauses passed to \<open>this.update\<close> are object literals of one computed key each.
\<close>

definition updateFunc ::
    "string \<Rightarrow> string \<Rightarrow> string list \<Rightarrow> query invocation \<Rightarrow>
       error option \<times> query invocation" where
  "updateFunc createdAtField updatedAtField blacklist st =
     (let (now, clk) = new_Date (clock st);
          st1 = st\<lparr>clock := clk\<rparr>;
          currentUpdateOp = getUpdate (receiver st1)
      in case getUpdateFields currentUpdateOp (Some SET_OPERATOR) of
           Inl e \<Rightarrow> (Some e, st1)
         | Inr currentSetFields \<Rightarrow>
             (case getUpdateFields currentUpdateOp (Some SET_ON_INSERT_OPERATOR) of
                Inl e \<Rightarrow> (Some e, st1)
              | Inr currentSetOnInsertFields \<Rightarrow>
                  (let setFieldsAreBlacklisted =
                         (case currentSetFields of
                            Missing \<Rightarrow> False
                          | Own fs \<Rightarrow> blacklistedFieldExists (Some blacklist) (Some fs)
                          | Inherited member \<Rightarrow>
                              blacklistedFieldExists (Some blacklist) (Some ([] :: clause)));
                       setOnInsertFieldsAreBlacklisted =
                         (case currentSetOnInsertFields of
                            Missing \<Rightarrow> False
                          | Own fs \<Rightarrow> blacklistedFieldExists (Some blacklist) (Some fs)
                          | Inherited member \<Rightarrow>
                              blacklistedFieldExists (Some blacklist) (Some ([] :: clause)))
                   in if setFieldsAreBlacklisted \<or> setOnInsertFieldsAreBlacklisted
                      then (None, call_next st1)
                      else
                        (None,
                         call_next
                           (st1\<lparr>receiver :=
                              query_update []
                                (obj_set ''$setOnInsert'' (obj_set createdAtField (JDate now) [])
                                  (obj_set ''$set'' (obj_set updatedAtField (JDate now) []) []))
                                (receiver st1)\<rparr>)))))"

definition getUpdateHook ::
    "plugin \<Rightarrow> query invocation \<Rightarrow> error option \<times> query invocation" where
  "getUpdateHook this = updateFunc (p_createdAt this) (p_updatedAt this) (p_blacklist this)"

text \<open>
  \<open>updateFunc\<close> of \<open>src/index.js\<close>: the same, but its set-on-insert clause is the literal
  \<open>{[createdAtField]: now, [updatedAtField]: now}\<close>.
\<close>

definition updateFunc_src ::
    "string \<Rightarrow> string \<Rightarrow> string list \<Rightarrow> query invocation \<Rightarrow>
       error option \<times> query invocation" where
  "updateFunc_src createdAtField updatedAtField blacklist st =
     (let (now, clk) = new_Date (clock st);
          st1 = st\<lparr>clock := clk\<rparr>;
          currentUpdateOp = getUpdate (receiver st1)
      in case getUpdateFields currentUpdateOp (Some SET_OPERATOR) of
           Inl e \<Rightarrow> (Some e, st1)
         | Inr currentSetFields \<Rightarrow>
             (case getUpdateFields currentUpdateOp (Some SET_ON_INSERT_OPERATOR) of
                Inl e \<Rightarrow> (Some e, st1)
              | Inr currentSetOnInsertFields \<Rightarrow>
                  (let setFieldsAreBlacklisted =
                         (case currentSetFields of
                            Missing \<Rightarrow> False
                          | Own fs \<Rightarrow> blacklistedFieldExists (Some blacklist) (Some fs)
                          | Inherited member \<Rightarrow>
                              blacklistedFieldExists (Some blacklist) (Some ([] :: clause)));
                       setOnInsertFieldsAreBlacklisted =
                         (case currentSetOnInsertFields of
                            Missing \<Rightarrow> False
                          | Own fs \<Rightarrow> blacklistedFieldExists (Some blacklist) (Some fs)
                          | Inherited member \<Rightarrow>
                              blacklistedFieldExists (Some blacklist) (Some ([] :: clause)))
                   in if setFieldsAreBlacklisted \<or> setOnInsertFieldsAreBlacklisted
                      then (None, call_next st1)
                      else
                        (None,
                         call_next
                           (st1\<lparr>receiver :=
                              query_update []
                                (obj_set ''$setOnInsert''
                                  (obj_set updatedAtField (JDate now)
                                    (obj_set createdAtField (JDate now) []))
                                  (obj_set ''$set'' (obj_set updatedAtField (JDate now) []) []))
                                (receiver st1)\<rparr>)))))"

definition getUpdateHook_src ::
    "plugin \<Rightarrow> query invocation \<Rightarrow> error option \<times> query invocation" where
  "getUpdateHook_src this =
     updateFunc_src (p_createdAt this) (p_updatedAt this) (p_blacklist this)"

subsection \<open>Registration of the hooks\<close>

text \<open>The later revision: the save hook is always registered.\<close>

definition save :: "plugin \<Rightarrow> schema_call list \<Rightarrow> schema_call list" where
  "save this calls = calls @ [Pre ''save'' (DocumentHook (getSaveHook this))]"

definition update :: "plugin \<Rightarrow> schema_call list \<Rightarrow> schema_call list" where
  "update this calls =
     (let shouldDisableUpdateHook = disableUpdateHook (p_options this)
      in if shouldDisableUpdateHook then calls
         else calls @ [Pre ''update'' (QueryHook (getUpdateHook this))])"

definition updateOne :: "plugin \<Rightarrow> schema_call list \<Rightarrow> schema_call list" where
  "updateOne this calls =
     (let shouldDisableUpdateOneHook = disableUpdateOneHook (p_options this)
      in if shouldDisableUpdateOneHook then calls
         else calls @ [Pre ''updateOne'' (QueryHook (getUpdateHook this))])"

definition findOneAndUpdate :: "plugin \<Rightarrow> schema_call list \<Rightarrow> schema_call list" where
  "findOneAndUpdate this calls =
     (let shouldDisableFindOneAndUpdateHook = disableFindOneAndUpdate (p_options this)
      in if shouldDisableFindOneAndUpdateHook then calls
         else calls @ [Pre ''findOneAndUpdate'' (QueryHook (getUpdateHook this))])"

text \<open>\<open>src/index.js\<close>: a disabled save hook is not registered at all.\<close>

definition save_src :: "plugin \<Rightarrow> schema_call list \<Rightarrow> schema_call list" where
  "save_src this calls =
     (let shouldDisableSaveHook = disableSaveHook (p_options this)
      in if shouldDisableSaveHook then calls
         else calls @ [Pre ''save'' (DocumentHook (getSaveHook_src this))])"

definition update_src :: "plugin \<Rightarrow> schema_call list \<Rightarrow> schema_call list" where
  "update_src this calls =
     (let shouldDisableUpdateHook = disableUpdateHook (p_options this)
      in if shouldDisableUpdateHook then calls
         else calls @ [Pre ''update'' (QueryHook (getUpdateHook_src this))])"

definition updateOne_src :: "plugin \<Rightarrow> schema_call list \<Rightarrow> schema_call list" where
  "updateOne_src this calls =
     (let shouldDisableUpdateOneHook = disableUpdateOneHook (p_options this)
      in if shouldDisableUpdateOneHook then calls
         else calls @ [Pre ''updateOne'' (QueryHook (getUpdateHook_src this))])"

subsection \<open>Attaching the plugin\<close>

text \<open>
  The default export of each revision: construct, then register. The result is the
  error thrown, if any, and the calls the schema received.
\<close>

definition happyMongooseTimestamps ::
    "schema option \<Rightarrow> options option \<Rightarrow> error option \<times> schema_call list" where
  "happyMongooseTimestamps schema_arg options_arg =
     (case constructor schema_arg options_arg [] of
        (Inl e, calls) \<Rightarrow> (Some e, calls)
      | (Inr plugin, calls) \<Rightarrow>
          (None, findOneAndUpdate plugin (updateOne plugin (update plugin (save plugin calls)))))"

definition happyMongooseTimestamps_src ::
    "schema option \<Rightarrow> options option \<Rightarrow> error option \<times> schema_call list" where
  "happyMongooseTimestamps_src schema_arg options_arg =
     (case constructor schema_arg options_arg [] of
        (Inl e, calls) \<Rightarrow> (Some e, calls)
      | (Inr plugin, calls) \<Rightarrow>
          (None, updateOne_src plugin (update_src plugin (save_src plugin calls))))"

section \<open>The matcher as the specification words it\<close>

text \<open>\<open>s.startsWith(p)\<close>.\<close>

definition startsWith :: "string \<Rightarrow> string \<Rightarrow> bool" where
  "startsWith s p = prefix p s"

text \<open>
  The specification's reading of the matcher: some entry \<open>E\<close> of the blacklist has
  \<open>P == E\<close> or \<open>P\<close> starts with \<open>E + "."\<close>.
\<close>

definition isCovered_spec :: "string list \<Rightarrow> string \<Rightarrow> bool" where
  "isCovered_spec B P = list_ex (\<lambda>E. P = E \<or> startsWith P (E @ ''.'')) B"

text \<open>
  The specification's \<open>anyCovered\<close>, on a field map that may be absent: the
  specification's matcher holds of at least one key of the map.
\<close>

definition anyCovered_spec :: "string list \<Rightarrow> 'v obj option \<Rightarrow> bool" where
  "anyCovered_spec B fields_arg =
     (case fields_arg of
        None \<Rightarrow> False
      | Some fs \<Rightarrow> list_ex (\<lambda>P. isCovered_spec B P) (Object_keys fs))"

text \<open>The entries of a blacklist that are not the empty string.\<close>

definition nonempty_entries :: "string list \<Rightarrow> string list" where
  "nonempty_entries B = filter (\<lambda>E. E \<noteq> []) B"

section \<open>Facts about the primitives and the matcher\<close>

lemma indexOf_nonneg: "(indexOf xs x \<ge> 0) = (x \<in> set xs)"
  by (induction xs) (auto simp: Let_def)

lemma split_no_sep: "c \<notin> set s \<Longrightarrow> split c s = [s]"
  by (induction s) auto

lemma split_append_sep: "c \<notin> set l \<Longrightarrow> split c (a @ c # l) = split c a @ [l]"
proof (induction a)
  case Nil
  then show ?case by (simp add: split_no_sep)
next
  case (Cons x a)
  obtain w ws where sp: "split c a = w # ws"
    using split_not_Nil [of c a] by (cases "split c a") auto
  with Cons show ?case by auto
qed

lemma newField_no_dot: "CHR ''.'' \<notin> set f \<Longrightarrow> newField f = []"
  by (simp add: newField_def splice_last_def split_no_sep)

lemma newField_dot: "CHR ''.'' \<notin> set l \<Longrightarrow> newField (a @ CHR ''.'' # l) = a"
  using join_split [of "CHR ''.''" a]
  by (simp add: newField_def splice_last_def split_append_sep)

lemma prefix_dot_step:
  assumes nd: "CHR ''.'' \<notin> set l"
  shows "prefix (E @ ''.'') (a @ CHR ''.'' # l) = (a = E \<or> prefix (E @ ''.'') a)"
proof
  assume "prefix (E @ ''.'') (a @ CHR ''.'' # l)"
  then consider "prefix (E @ ''.'') a"
    | us where "E @ ''.'' = a @ us" "prefix us (CHR ''.'' # l)"
    by (auto simp: prefix_append)
  then show "a = E \<or> prefix (E @ ''.'') a"
  proof cases
    case 1
    then show ?thesis by simp
  next
    case 2
    show ?thesis
    proof (cases us)
      case Nil
      with 2 show ?thesis by simp
    next
      case (Cons u us')
      with 2 have u: "u = CHR ''.''" and p: "prefix us' l" by auto
      show ?thesis
      proof (cases "us' = []")
        case True
        with 2 Cons u show ?thesis by simp
      next
        case False
        then obtain vs v where us': "us' = vs @ [v]" by (metis rev_exhaust)
        from 2(1) have "E @ [CHR ''.''] = (a @ CHR ''.'' # vs) @ [v]"
          unfolding Cons u us' by simp
        then have "v = CHR ''.''" by (simp only: append1_eq_conv)
        with us' have "CHR ''.'' \<in> set us'" by simp
        with set_mono_prefix [OF p] have "CHR ''.'' \<in> set l" by blast
        with nd show ?thesis by simp
      qed
    qed
  qed
next
  assume "a = E \<or> prefix (E @ ''.'') a"
  then show "prefix (E @ ''.'') (a @ CHR ''.'' # l)"
    by (auto simp: prefix_append)
qed

lemma no_dot_no_prefix: "CHR ''.'' \<notin> set f \<Longrightarrow> \<not> prefix (E @ ''.'') f"
proof
  assume nd: "CHR ''.'' \<notin> set f" and p: "prefix (E @ ''.'') f"
  from set_mono_prefix [OF p] have "CHR ''.'' \<in> set f" by simp
  with nd show False by simp
qed



lemma fieldIsBlacklisted_empty: "fieldIsBlacklisted blacklist [] = False"
  by (subst fieldIsBlacklisted.simps) simp

lemma fieldIsBlacklisted_member:
  "field \<noteq> [] \<Longrightarrow> field \<in> set blacklist \<Longrightarrow> fieldIsBlacklisted blacklist field = True"
  by (subst fieldIsBlacklisted.simps) (simp add: indexOf_nonneg)

lemma fieldIsBlacklisted_parent:
  "field \<noteq> [] \<Longrightarrow> field \<notin> set blacklist \<Longrightarrow>
     fieldIsBlacklisted blacklist field = fieldIsBlacklisted blacklist (newField field)"
  by (subst fieldIsBlacklisted.simps) (simp add: indexOf_nonneg)

lemma fieldIsBlacklisted_char:
  "fieldIsBlacklisted blacklist field =
     (\<exists>E \<in> set blacklist. E \<noteq> [] \<and> (field = E \<or> prefix (E @ ''.'') field))"
proof (induction blacklist field rule: fieldIsBlacklisted.induct)
  case (1 blacklist field)
  show ?case
  proof (cases "field = []")
    case True
    then show ?thesis by (auto simp: fieldIsBlacklisted_empty)
  next
    case ne: False
    show ?thesis
    proof (cases "field \<in> set blacklist")
      case True
      with ne show ?thesis by (auto simp: fieldIsBlacklisted_member)
    next
      case notin: False
      from ne notin have unf:
        "fieldIsBlacklisted blacklist field = fieldIsBlacklisted blacklist (newField field)"
        by (rule fieldIsBlacklisted_parent)
      from ne notin have IH: "fieldIsBlacklisted blacklist (newField field) =
          (\<exists>E \<in> set blacklist. E \<noteq> [] \<and>
             (newField field = E \<or> prefix (E @ ''.'') (newField field)))"
        by (intro 1) (simp_all add: indexOf_nonneg)
      show ?thesis
      proof (cases "CHR ''.'' \<in> set field")
        case False
        then have nf: "newField field = []" by (rule newField_no_dot)
        have "\<not> fieldIsBlacklisted blacklist field"
          unfolding unf nf by (simp add: fieldIsBlacklisted_empty)
        moreover have "\<not> (\<exists>E \<in> set blacklist. E \<noteq> [] \<and> (field = E \<or> prefix (E @ ''.'') field))"
          using notin no_dot_no_prefix [OF False] by blast
        ultimately show ?thesis by simp
      next
        case True
        then obtain a l where f: "field = a @ CHR ''.'' # l" and nd: "CHR ''.'' \<notin> set l"
          by (auto dest: split_list_last)
        then have nf: "newField field = a" by (simp add: newField_dot)
        have step: "\<And>E. prefix (E @ ''.'') field = (a = E \<or> prefix (E @ ''.'') a)"
          unfolding f by (rule prefix_dot_step [OF nd])
        have "(\<exists>E \<in> set blacklist. E \<noteq> [] \<and> (field = E \<or> prefix (E @ ''.'') field)) =
              (\<exists>E \<in> set blacklist. E \<noteq> [] \<and> (a = E \<or> prefix (E @ ''.'') a))"
          using notin unfolding step by blast
        with IH [unfolded nf] show ?thesis
          unfolding unf nf by simp
      qed
    qed
  qed
qed


lemma fieldIsBlacklisted_no_blacklist: "fieldIsBlacklisted [] field = False"
  by (simp add: fieldIsBlacklisted_char)

lemma some_iff: "some p xs = (\<exists>x \<in> set xs. p x)"
  by (induction xs) auto

lemma some_calls_Nil: "(some_calls p xs = []) = (xs = [])"
  by (cases xs) auto

lemma some_from_calls: "some p xs = (\<exists>x \<in> set (some_calls p xs). p x)"
  by (induction xs) auto

lemma blacklistedFieldExists_iff:
  "blacklistedFieldExists (Some blacklist) (Some fs) =
     (\<exists>field \<in> set (Object_keys fs). fieldIsBlacklisted blacklist field)"
proof (cases "blacklist = [] \<or> Object_keys fs = []")
  case True
  then show ?thesis
    by (auto simp: blacklistedFieldExists_def fieldIsBlacklisted_no_blacklist)
next
  case False
  then show ?thesis
    by (simp add: blacklistedFieldExists_def some_iff)
qed

lemma fieldIsBlacklisted_spec:
  "fieldIsBlacklisted blacklist field = isCovered_spec (nonempty_entries blacklist) field"
  by (auto simp: fieldIsBlacklisted_char isCovered_spec_def nonempty_entries_def
        startsWith_def list_ex_iff)



lemma blacklistedFieldExists_anyCovered:
  "blacklistedFieldExists (Some blacklist) fields_arg
     = anyCovered_spec (nonempty_entries blacklist) fields_arg"
proof (cases fields_arg)
  case None
  then show ?thesis
    by (simp add: blacklistedFieldExists_def anyCovered_spec_def Object_keys_def)
next
  case (Some fs)
  then show ?thesis
    by (simp add: blacklistedFieldExists_iff anyCovered_spec_def list_ex_iff
          fieldIsBlacklisted_spec)
qed

text \<open>
  The log of calls is faithful: when the guard lets the iteration start, the matcher is
  called at least once, and the result is what the logged calls returned.
\<close>

lemma blacklistedFieldExists_calls_nonempty:
  "blacklist \<noteq> [] \<Longrightarrow> fs \<noteq> [] \<Longrightarrow>
     blacklistedFieldExists_calls (Some blacklist) (Some fs) \<noteq> []"
  by (simp add: blacklistedFieldExists_calls_def Object_keys_def some_calls_Nil)

lemma blacklistedFieldExists_from_calls:
  "blacklistedFieldExists blacklist_arg fields_arg =
     (\<exists>field \<in> set (blacklistedFieldExists_calls blacklist_arg fields_arg).
        fieldIsBlacklisted (case blacklist_arg of None \<Rightarrow> [] | Some b \<Rightarrow> b) field)"
  unfolding blacklistedFieldExists_def blacklistedFieldExists_calls_def Let_def
  using some_from_calls by (auto split: option.splits)

section \<open>Facts about objects and the merge\<close>

lemma map_of_obj_insert:
  "map_of ob k = None \<Longrightarrow>
     map_of (obj_insert k v ob) k' = (if k' = k then Some v else map_of ob k')"
  by (induction ob) (auto split: if_splits)

lemma map_of_replace:
  "map_of (map (\<lambda>p. if fst p = k then (k, v) else p) ob) k'
     = (if k' = k then map_option (\<lambda>w. v) (map_of ob k) else map_of ob k')"
  by (induction ob) auto

lemma map_of_obj_set:
  "map_of (obj_set k v ob) k' = (if k' = k then Some v else map_of ob k')"
proof (cases "k \<in> set (Object_keys ob)")
  case True
  then have "map_of ob k \<noteq> None"
    by (simp add: Object_keys_def map_of_eq_None_iff)
  then obtain w where "map_of ob k = Some w"
    by blast
  with True show ?thesis
    by (simp add: obj_set_def map_of_replace)
next
  case False
  then have "map_of ob k = None"
    by (simp add: Object_keys_def map_of_eq_None_iff)
  with False show ?thesis
    by (simp add: obj_set_def map_of_obj_insert)
qed

lemma obj_set_Nil: "obj_set k v [] = [(k, v)]"
  by (simp add: obj_set_def Object_keys_def)

lemma array_index_not_digit: "s \<noteq> [] \<Longrightarrow> \<not> is_digit (hd s) \<Longrightarrow> array_index s = None"
  by (cases s) (simp_all add: array_index_def)

lemma obj_set_append:
  "k \<noteq> k0 \<Longrightarrow> array_index k = None \<Longrightarrow> obj_set k v [(k0, v0)] = [(k0, v0), (k, v)]"
  by (simp add: obj_set_def Object_keys_def key_before_def)

lemma stamp_literal:
  "obj_set ''$setOnInsert'' soi [(''$set'', s)] = [(''$set'', s), (''$setOnInsert'', soi)]"
proof -
  have "array_index ''$setOnInsert'' = None"
    by (rule array_index_not_digit) (simp_all add: is_digit_def)
  then show ?thesis
    by (simp add: obj_set_append)
qed

text \<open>
  The literal \<open>{[c]: now, [u]: now}\<close> of \<open>src/index.js\<close> has the keys \<open>c\<close> and \<open>u\<close>, both
  with the value \<open>now\<close>; a key that is an array index comes first.
\<close>

lemma map_of_src_literal:
  "map_of (obj_set u v [(c, v)]) k = (if k = c \<or> k = u then Some v else None)"
  by (simp add: map_of_obj_set)

lemma src_literal_cases:
  "obj_set u v [(c, v)] =
     (if u = c then [(c, v)] else if key_before u c then [(u, v), (c, v)] else [(c, v), (u, v)])"
  by (simp add: obj_set_def Object_keys_def)

lemma obj_get_own: "map_of ob name = Some v \<Longrightarrow> obj_get ob name = Own v"
  by (simp add: obj_get_def)

lemma obj_get_plain:
  "name \<notin> set Object_prototype \<Longrightarrow>
     obj_get ob name = (case map_of ob name of None \<Rightarrow> Missing | Some v \<Rightarrow> Own v)"
  by (simp add: obj_get_def split: option.splits)

lemma SET_OPERATOR_plain: "SET_OPERATOR \<notin> set Object_prototype"
  by (simp add: SET_OPERATOR_def Object_prototype_def)

lemma SET_ON_INSERT_OPERATOR_plain: "SET_ON_INSERT_OPERATOR \<notin> set Object_prototype"
  by (simp add: SET_ON_INSERT_OPERATOR_def Object_prototype_def)







section \<open>Facts about the hooks\<close>

text \<open>
  The clauses the specification has the update hook add: one direct-set of the
  modified-field and one set-on-insert of the created-field, both to the same instant.
\<close>

definition stamp_clauses_spec :: "string \<Rightarrow> string \<Rightarrow> instant \<Rightarrow> update_op" where
  "stamp_clauses_spec createdAtField updatedAtField now =
     [(''$set'', [(updatedAtField, JDate now)]),
      (''$setOnInsert'', [(createdAtField, JDate now)])]"

text \<open>States to run the hooks on: a clock whose readings all differ, nothing done yet.\<close>

definition ticking_clock :: clock where
  "ticking_clock = \<lparr>time_at = (\<lambda>n. 1000 + n), reads = 0\<rparr>"

definition fresh_query :: "update_op option \<Rightarrow> query invocation" where
  "fresh_query uo =
     \<lparr>receiver = \<lparr>getUpdate = uo, update_calls = []\<rparr>, clock = ticking_clock, next_calls = 0\<rparr>"

definition fresh_document :: "bool \<Rightarrow> document invocation" where
  "fresh_document isNew =
     \<lparr>receiver = ((\<lambda>name. JUndefined)(''isNew'' := JBoolean isNew)),
      clock = ticking_clock, next_calls = 0\<rparr>"

lemma fst_new_Date: "fst (new_Date clk) = time_at clk (reads clk)"
  by (simp add: new_Date_def)

lemma snd_new_Date: "snd (new_Date clk) = clk\<lparr>reads := Suc (reads clk)\<rparr>"
  by (simp add: new_Date_def)

text \<open>
  The hook's test \<open>x && blacklistedFieldExists(blacklist, x)\<close> on the clause read under
  one of its two operators: the blacklist, less its empty entries, covers a key of the
  operation's own clause.
\<close>

lemma guarded_blacklistedFieldExists:
  assumes "name \<notin> set Object_prototype"
  shows "(case obj_get uo name of
            Missing \<Rightarrow> False
          | Own fs \<Rightarrow> blacklistedFieldExists (Some blacklist) (Some fs)
          | Inherited member \<Rightarrow> blacklistedFieldExists (Some blacklist) (Some ([] :: clause)))
     = anyCovered_spec (nonempty_entries blacklist) (map_of uo name)"
proof (cases "map_of uo name")
  case None
  with assms show ?thesis
    by (simp add: obj_get_plain anyCovered_spec_def)
next
  case (Some fs)
  with assms show ?thesis
    by (simp add: obj_get_plain blacklistedFieldExists_anyCovered)
qed

lemma getUpdateFields_SET:
  "getUpdateFields (Some uo) (Some SET_OPERATOR) = Inr (obj_get uo SET_OPERATOR)"
  by (simp add: getUpdateFields_def SET_OPERATOR_def)

lemma getUpdateFields_SET_ON_INSERT:
  "getUpdateFields (Some uo) (Some SET_ON_INSERT_OPERATOR)
     = Inr (obj_get uo SET_ON_INSERT_OPERATOR)"
  by (simp add: getUpdateFields_def SET_ON_INSERT_OPERATOR_def)

text \<open>The save hook, path by path.\<close>

lemma saveFunc_skipped:
  "shouldDisableSaveHook \<Longrightarrow> \<not> shouldForceCreateHook \<or> \<not> truthy (receiver st ''isNew'') \<Longrightarrow>
     saveFunc c u shouldDisableSaveHook shouldForceCreateHook st = call_next st"
  by (auto simp: saveFunc_def)

lemma saveFunc_new:
  "\<not> (shouldDisableSaveHook \<and> \<not> shouldForceCreateHook) \<Longrightarrow> truthy (receiver st ''isNew'') \<Longrightarrow>
     saveFunc c u shouldDisableSaveHook shouldForceCreateHook st =
       call_next (st\<lparr>receiver := ((receiver st)(c := JDate (fst (new_Date (clock st)))))
                                   (u := JDate (fst (new_Date (clock st)))),
                      clock := snd (new_Date (clock st))\<rparr>)"
  by (auto simp: saveFunc_def Let_def split: prod.splits)

lemma saveFunc_old:
  "\<not> shouldDisableSaveHook \<Longrightarrow> \<not> truthy (receiver st ''isNew'') \<Longrightarrow>
     saveFunc c u shouldDisableSaveHook shouldForceCreateHook st =
       call_next (st\<lparr>receiver := (receiver st)(u := JDate (fst (new_Date (clock st)))),
                      clock := snd (new_Date (clock st))\<rparr>)"
  by (auto simp: saveFunc_def Let_def split: prod.splits)

text \<open>The update hook, path by path.\<close>

lemma updateFunc_absent:
  "getUpdate (receiver st) = None \<Longrightarrow>
     updateFunc c u blacklist st
       = (Some updateOperation_is_undefined, st\<lparr>clock := snd (new_Date (clock st))\<rparr>)"
  by (simp add: updateFunc_def getUpdateFields_def Let_def split: prod.splits)


lemma updateFunc_present:
  assumes "getUpdate (receiver st) = Some uo"
  shows "updateFunc c u blacklist st =
     (if anyCovered_spec (nonempty_entries blacklist) (map_of uo SET_OPERATOR)
         \<or> anyCovered_spec (nonempty_entries blacklist) (map_of uo SET_ON_INSERT_OPERATOR)
      then (None, call_next (st\<lparr>clock := snd (new_Date (clock st))\<rparr>))
      else (None,
            call_next
              (st\<lparr>clock := snd (new_Date (clock st)),
                  receiver :=
                    query_update [] (stamp_clauses_spec c u (fst (new_Date (clock st))))
                      (receiver st)\<rparr>)))"
  using assms
  by (simp add: updateFunc_def getUpdateFields_SET getUpdateFields_SET_ON_INSERT
        guarded_blacklistedFieldExists [OF SET_OPERATOR_plain]
        guarded_blacklistedFieldExists [OF SET_ON_INSERT_OPERATOR_plain]
        stamp_clauses_spec_def stamp_literal obj_set_Nil Let_def split: prod.splits)

lemma updateFunc_src_present:
  assumes "getUpdate (receiver st) = Some uo"
  shows "updateFunc_src c u blacklist st =
     (if anyCovered_spec (nonempty_entries blacklist) (map_of uo SET_OPERATOR)
         \<or> anyCovered_spec (nonempty_entries blacklist) (map_of uo SET_ON_INSERT_OPERATOR)
      then (None, call_next (st\<lparr>clock := snd (new_Date (clock st))\<rparr>))
      else (None,
            call_next
              (st\<lparr>clock := snd (new_Date (clock st)),
                  receiver :=
                    query_update []
                      [(''$set'', [(u, JDate (fst (new_Date (clock st))))]),
                       (''$setOnInsert'',
                          obj_set u (JDate (fst (new_Date (clock st))))
                            [(c, JDate (fst (new_Date (clock st))))])]
                      (receiver st)\<rparr>)))"
  using assms
  by (simp add: updateFunc_src_def getUpdateFields_SET getUpdateFields_SET_ON_INSERT
        guarded_blacklistedFieldExists [OF SET_OPERATOR_plain]
        guarded_blacklistedFieldExists [OF SET_ON_INSERT_OPERATOR_plain]
        stamp_literal obj_set_Nil Let_def split: prod.splits)

text \<open>
  With a schema and no options, attaching registers the four hooks of the later
  revision and the three of \<open>src/index.js\<close>, in the order of the calls.
\<close>

lemma happyMongooseTimestamps_registers:
  "map (\<lambda>call. case call of Add field \<Rightarrow> ''add'' | Pre event h \<Rightarrow> event)
       (snd (happyMongooseTimestamps (Some sch) None))
     = [''save'', ''update'', ''updateOne'', ''findOneAndUpdate'']"
  by (simp add: happyMongooseTimestamps_def constructor_def empty_options_def save_def
        update_def updateOne_def findOneAndUpdate_def)

lemma happyMongooseTimestamps_src_registers:
  "map (\<lambda>call. case call of Add field \<Rightarrow> ''add'' | Pre event h \<Rightarrow> event)
       (snd (happyMongooseTimestamps_src (Some sch) None))
     = [''save'', ''update'', ''updateOne'']"
  by (simp add: happyMongooseTimestamps_src_def constructor_def empty_options_def save_src_def
        update_src_def updateOne_src_def)

section \<open>The claims\<close>

subsection \<open>C1: what the matcher decides\<close>

text \<open>
  C1. The claim: for every blacklist \<open>B\<close> and every non-empty path \<open>P\<close>, the matcher is
  true iff some entry \<open>E\<close> of \<open>B\<close> has \<open>P == E\<close> or \<open>P\<close> starts with \<open>E + "."\<close>. It fails
  for the empty entry: with the empty string as the only entry of \<open>B\<close> and \<open>P = ".foo"\<close>,
  the path starts with \<open>E + "."\<close>, yet the walk goes from \<open>".foo"\<close> to the empty string,
  where the matcher answers false without looking at the blacklist.
\<close>

theorem C1_empty_entry_counterexample:
  "''.foo'' \<noteq> [] \<and> fieldIsBlacklisted [''''] ''.foo'' \<noteq> isCovered_spec [''''] ''.foo''"
  by code_simp

text \<open>
  C1, amended. For every blacklist and every path, the matcher is true iff some
  non-empty entry \<open>E\<close> of the blacklist has \<open>P == E\<close> or \<open>P\<close> starts with \<open>E + "."\<close>: it
  is the specification's matcher on the blacklist without its empty entries, and the
  specification's matcher on the blacklist itself when that has no empty entry or the
  path is non-empty and does not begin with a dot. An entry that is a strict descendant
  of the path (\<open>E\<close> starts with \<open>P + "."\<close>) does not match it.
\<close>

theorem C1_fieldIsBlacklisted_iff_nonempty_entry:
  "fieldIsBlacklisted blacklist field
     = isCovered_spec (filter (\<lambda>E. E \<noteq> []) blacklist) field
   \<and> ([] \<notin> set blacklist \<or> (field \<noteq> [] \<and> \<not> startsWith field ''.'')
        \<longrightarrow> fieldIsBlacklisted blacklist field = isCovered_spec blacklist field)
   \<and> (startsWith E (field @ ''.'') \<longrightarrow> \<not> fieldIsBlacklisted [E] field)"
proof (intro conjI impI)
  show "fieldIsBlacklisted blacklist field
          = isCovered_spec (filter (\<lambda>E. E \<noteq> []) blacklist) field"
    by (auto simp: fieldIsBlacklisted_char isCovered_spec_def startsWith_def list_ex_iff)
next
  assume h: "[] \<notin> set blacklist \<or> (field \<noteq> [] \<and> \<not> startsWith field ''.'')"
  have "\<And>E. E \<in> set blacklist \<Longrightarrow> field = E \<or> prefix (E @ ''.'') field \<Longrightarrow> E \<noteq> []"
    using h by (auto simp: startsWith_def)
  then show "fieldIsBlacklisted blacklist field = isCovered_spec blacklist field"
    by (auto simp: fieldIsBlacklisted_char isCovered_spec_def startsWith_def list_ex_iff)
next
  assume "startsWith E (field @ ''.'')"
  then obtain r where E: "E = field @ ''.'' @ r"
    by (auto simp: startsWith_def prefix_def)
  have "field \<noteq> E" using E by simp
  moreover have "\<not> prefix (E @ ''.'') field"
  proof
    assume "prefix (E @ ''.'') field"
    then have "length (E @ ''.'') \<le> length field" by (rule prefix_length_le)
    with E show False by simp
  qed
  ultimately show "\<not> fieldIsBlacklisted [E] field"
    by (simp add: fieldIsBlacklisted_char)
qed

theorem C1_fieldIsBlacklisted_witness:
  "fieldIsBlacklisted [''foo'', ''''] ''foo.nested.value''
   \<and> isCovered_spec [''foo''] ''foo.nested.value''
   \<and> \<not> fieldIsBlacklisted [''foo'', ''''] ''.bar''
   \<and> startsWith ''foo.bar'' (''foo'' @ ''.'')
   \<and> \<not> fieldIsBlacklisted [''foo.bar''] ''foo''"
proof -
  note t1 = C1_fieldIsBlacklisted_iff_nonempty_entry
              [of "[''foo'', '''']" "''foo.nested.value''" "''foo.bar''"]
  note t2 = C1_fieldIsBlacklisted_iff_nonempty_entry [of "[''foo'', '''']" "''.bar''" "''foo.bar''"]
  note t3 = C1_fieldIsBlacklisted_iff_nonempty_entry [of "[''foo.bar'']" "''foo''" "''foo.bar''"]
  have a: "isCovered_spec [''foo''] ''foo.nested.value''" by code_simp
  have b: "\<not> isCovered_spec [''foo''] ''.bar''" by code_simp
  have c: "startsWith ''foo.bar'' (''foo'' @ ''.'')" by code_simp
  have 1: "fieldIsBlacklisted [''foo'', ''''] ''foo.nested.value''"
    using conjunct1 [OF t1] a by simp
  have 2: "\<not> fieldIsBlacklisted [''foo'', ''''] ''.bar''"
    using conjunct1 [OF t2] b by simp
  have 3: "\<not> fieldIsBlacklisted [''foo.bar''] ''foo''"
    using conjunct2 [OF conjunct2 [OF t3]] c by blast
  from 1 a 2 c 3 show ?thesis by blast
qed

subsection \<open>C2: what the update hook adds when nothing is covered\<close>




subsection \<open>C3: saving a new document with the save hook disabled\<close>

text \<open>
  C3. With \<open>disableSaveHook\<close> set, the save hook of a plugin, run on a new document,
  sets the created-field and the modified-field to one reading of the clock when
  \<open>forceCreateHook\<close> is set, and otherwise changes neither the document nor the clock;
  either way it calls \<open>next\<close> once. So both fields are stamped iff \<open>forceCreateHook\<close>
  is set.
\<close>

theorem C3_getSaveHook_new_document:
  assumes "disableSaveHook (p_options this)"
    and "truthy (receiver st ''isNew'')"
  shows "getSaveHook this st =
           (if forceCreateHook (p_options this)
            then st\<lparr>receiver :=
                      ((receiver st)(p_createdAt this := JDate (fst (new_Date (clock st)))))
                        (p_updatedAt this := JDate (fst (new_Date (clock st)))),
                    clock := snd (new_Date (clock st)),
                    next_calls := Suc (next_calls st)\<rparr>
            else st\<lparr>next_calls := Suc (next_calls st)\<rparr>)
         \<and> (forceCreateHook (p_options this) \<longrightarrow>
               receiver (getSaveHook this st) (p_createdAt this)
                 = JDate (fst (new_Date (clock st)))
               \<and> receiver (getSaveHook this st) (p_updatedAt this)
                 = JDate (fst (new_Date (clock st))))
         \<and> (\<not> forceCreateHook (p_options this) \<longrightarrow>
               receiver (getSaveHook this st) = receiver st)"
proof (cases "forceCreateHook (p_options this)")
  case True
  with assms show ?thesis
    by (simp add: getSaveHook_def saveFunc_new call_next_def)
next
  case False
  with assms show ?thesis
    by (simp add: getSaveHook_def saveFunc_skipped call_next_def)
qed

theorem C3_getSaveHook_new_document_witness:
  "receiver (getSaveHook
      \<lparr>p_schema = \<lparr>has_property = (\<lambda>name. False)\<rparr>,
       p_options = empty_options\<lparr>disableSaveHook := True, forceCreateHook := True\<rparr>,
       p_blacklist = [], p_createdAt = ''createdAt'', p_updatedAt = ''updatedAt''\<rparr>
      (fresh_document True)) ''createdAt'' = JDate 1000
   \<and> receiver (getSaveHook
      \<lparr>p_schema = \<lparr>has_property = (\<lambda>name. False)\<rparr>,
       p_options = empty_options\<lparr>disableSaveHook := True, forceCreateHook := True\<rparr>,
       p_blacklist = [], p_createdAt = ''createdAt'', p_updatedAt = ''updatedAt''\<rparr>
      (fresh_document True)) ''updatedAt'' = JDate 1000
   \<and> receiver (getSaveHook
      \<lparr>p_schema = \<lparr>has_property = (\<lambda>name. False)\<rparr>,
       p_options = empty_options\<lparr>disableSaveHook := True, forceCreateHook := False\<rparr>,
       p_blacklist = [], p_createdAt = ''createdAt'', p_updatedAt = ''updatedAt''\<rparr>
      (fresh_document True)) = receiver (fresh_document True)"
proof -
  let ?forced = "\<lparr>p_schema = \<lparr>has_property = (\<lambda>name. False)\<rparr>,
       p_options = empty_options\<lparr>disableSaveHook := True, forceCreateHook := True\<rparr>,
       p_blacklist = [], p_createdAt = ''createdAt'', p_updatedAt = ''updatedAt''\<rparr>"
  let ?plain = "\<lparr>p_schema = \<lparr>has_property = (\<lambda>name. False)\<rparr>,
       p_options = empty_options\<lparr>disableSaveHook := True, forceCreateHook := False\<rparr>,
       p_blacklist = [], p_createdAt = ''createdAt'', p_updatedAt = ''updatedAt''\<rparr>"
  have n: "truthy (receiver (fresh_document True) ''isNew'')"
    by (simp add: fresh_document_def)
  have d1: "disableSaveHook (p_options ?forced)" by simp
  have d2: "disableSaveHook (p_options ?plain)" by simp
  have f1: "forceCreateHook (p_options ?forced)" by simp
  have f2: "\<not> forceCreateHook (p_options ?plain)" by (simp add: empty_options_def)
  note t1 = C3_getSaveHook_new_document [OF d1 n]
  note t2 = C3_getSaveHook_new_document [OF d2 n]
  have c: "fst (new_Date (clock (fresh_document True))) = 1000"
    by (simp add: fresh_document_def ticking_clock_def new_Date_def)
  from conjunct1 [OF conjunct2 [OF t1]] f1 c
  have 1: "receiver (getSaveHook ?forced (fresh_document True)) ''createdAt'' = JDate 1000
         \<and> receiver (getSaveHook ?forced (fresh_document True)) ''updatedAt'' = JDate 1000"
    by simp
  from conjunct2 [OF conjunct2 [OF t2]] f2
  have 2: "receiver (getSaveHook ?plain (fresh_document True)) = receiver (fresh_document True)"
    by blast
  from 1 2 show ?thesis by blast
qed

subsection \<open>C4: a covered update is left alone\<close>

text \<open>
  C4. The claim: whenever the blacklist covers a key of the direct-set map or of the
  set-on-insert map, the hook calls \<open>next\<close> and adds nothing. It fails where only an
  empty entry covers the key: with the empty string as the only entry of the blacklist
  and the operation \<open>{$set: {'.foo': 1}}\<close>, the key \<open>'.foo'\<close> starts with that entry and
  a dot, so it is covered, yet the matcher of the code is false of it and both
  revisions add their timestamp clauses.
\<close>

theorem C4_empty_entry_counterexample:
  "anyCovered_spec [''''] (map_of [(''$set'', [(''.foo'', JNumber 1)])] SET_OPERATOR)
   \<and> update_calls (receiver (snd (updateFunc ''createdAt'' ''updatedAt'' ['''']
          (fresh_query (Some [(''$set'', [(''.foo'', JNumber 1)])])))))
       = [([], [(''$set'', [(''updatedAt'', JDate 1000)]),
                (''$setOnInsert'', [(''createdAt'', JDate 1000)])])]
   \<and> update_calls (receiver (snd (updateFunc_src ''createdAt'' ''updatedAt'' ['''']
          (fresh_query (Some [(''$set'', [(''.foo'', JNumber 1)])])))))
       = [([], [(''$set'', [(''updatedAt'', JDate 1000)]),
                (''$setOnInsert'', [(''createdAt'', JDate 1000), (''updatedAt'', JDate 1000)])])]"
proof -
  let ?uo = "[(''$set'', [(''.foo'', JNumber 1)])]"
  have cov: "anyCovered_spec [''''] (map_of ?uo SET_OPERATOR)"
    by code_simp
  have a: "\<not> anyCovered_spec (nonempty_entries ['''']) (map_of ?uo SET_OPERATOR)"
    and b: "\<not> anyCovered_spec (nonempty_entries ['''']) (map_of ?uo SET_ON_INSERT_OPERATOR)"
    by code_simp+
  have k: "\<not> key_before ''updatedAt'' ''createdAt''"
    by (simp add: key_before_def array_index_def is_digit_def)
  have later: "update_calls (receiver (snd (updateFunc ''createdAt'' ''updatedAt'' ['''']
          (fresh_query (Some ?uo)))))
       = [([], [(''$set'', [(''updatedAt'', JDate 1000)]),
                (''$setOnInsert'', [(''createdAt'', JDate 1000)])])]"
    using a b
    by (simp add: updateFunc_present [of _ ?uo] fresh_query_def ticking_clock_def
          query_update_def call_next_def new_Date_def stamp_clauses_spec_def)
  have src: "update_calls (receiver (snd (updateFunc_src ''createdAt'' ''updatedAt'' ['''']
          (fresh_query (Some ?uo)))))
       = [([], [(''$set'', [(''updatedAt'', JDate 1000)]),
                (''$setOnInsert'', [(''createdAt'', JDate 1000), (''updatedAt'', JDate 1000)])])]"
    using a b k
    by (simp add: updateFunc_src_present [of _ ?uo] fresh_query_def ticking_clock_def
          query_update_def call_next_def new_Date_def src_literal_cases)
  from cov later src show ?thesis by (intro conjI)
qed

text \<open>
  C4, amended. When a non-empty entry of the blacklist covers a key of the direct-set
  map or of the set-on-insert map of the query's update operation, which is exactly
  when the matcher of the code holds of a key of one of the two maps, the update hook
  of either revision calls \<open>next\<close> once and does nothing else to the query: no call of
  \<open>update\<close>, the operation and the write that results as they were, no throw. Only the
  clock has been read.
\<close>

theorem C4_updateFunc_covered:
  assumes "getUpdate (receiver st) = Some uo"
    and "anyCovered_spec (nonempty_entries blacklist) (map_of uo SET_OPERATOR)
         \<or> anyCovered_spec (nonempty_entries blacklist) (map_of uo SET_ON_INSERT_OPERATOR)"
  shows "updateFunc c u blacklist st =
           (None, st\<lparr>clock := snd (new_Date (clock st)), next_calls := Suc (next_calls st)\<rparr>)
         \<and> updateFunc_src c u blacklist st =
           (None, st\<lparr>clock := snd (new_Date (clock st)), next_calls := Suc (next_calls st)\<rparr>)
         \<and> receiver (snd (updateFunc c u blacklist st)) = receiver st
         \<and> receiver (snd (updateFunc_src c u blacklist st)) = receiver st
         \<and> pending_write (receiver (snd (updateFunc c u blacklist st)))
             = pending_write (receiver st)
         \<and> pending_write (receiver (snd (updateFunc_src c u blacklist st)))
             = pending_write (receiver st)
         \<and> anyCovered_spec (nonempty_entries blacklist) fields_arg
             = (case fields_arg of
                  None \<Rightarrow> False
                | Some fs \<Rightarrow>
                    list_ex (\<lambda>field. fieldIsBlacklisted blacklist field) (Object_keys fs))"
proof -
  have m: "anyCovered_spec (nonempty_entries blacklist) fields_arg
             = (case fields_arg of
                  None \<Rightarrow> False
                | Some fs \<Rightarrow>
                    list_ex (\<lambda>field. fieldIsBlacklisted blacklist field) (Object_keys fs))"
    by (simp add: anyCovered_spec_def fieldIsBlacklisted_spec split: option.splits)
  from assms(2) m show ?thesis
    by (simp add: updateFunc_present [OF assms(1)] updateFunc_src_present [OF assms(1)]
          call_next_def)
qed

theorem C4_updateFunc_covered_witness:
  "anyCovered_spec (nonempty_entries [''foo''])
     (map_of [(''$set'', [(''foo'', JString ''bar''), (''bar'', JString ''baz'')])] SET_OPERATOR)
   \<and> receiver (snd (updateFunc ''createdAt'' ''updatedAt'' [''foo'']
        (fresh_query (Some [(''$set'', [(''foo'', JString ''bar''), (''bar'', JString ''baz'')])]))))
     = \<lparr>getUpdate = Some [(''$set'', [(''foo'', JString ''bar''), (''bar'', JString ''baz'')])],
        update_calls = []\<rparr>
   \<and> receiver (snd (updateFunc_src ''createdAt'' ''updatedAt'' [''foo'']
        (fresh_query (Some [(''$set'', [(''foo'', JString ''bar''), (''bar'', JString ''baz'')])]))))
     = \<lparr>getUpdate = Some [(''$set'', [(''foo'', JString ''bar''), (''bar'', JString ''baz'')])],
        update_calls = []\<rparr>"
proof -
  let ?uo = "[(''$set'', [(''foo'', JString ''bar''), (''bar'', JString ''baz'')])]"
  have g: "getUpdate (receiver (fresh_query (Some ?uo))) = Some ?uo"
    by (simp add: fresh_query_def)
  have a: "anyCovered_spec (nonempty_entries [''foo'']) (map_of ?uo SET_OPERATOR)"
    by code_simp
  note t = C4_updateFunc_covered [OF g disjI1 [OF a], of "''createdAt''" "''updatedAt''" None]
  have r: "receiver (fresh_query (Some ?uo)) = \<lparr>getUpdate = Some ?uo, update_calls = []\<rparr>"
    by (simp add: fresh_query_def)
  note t1 = conjunct1 [OF conjunct2 [OF conjunct2 [OF t]]]
  note t2 = conjunct1 [OF conjunct2 [OF conjunct2 [OF conjunct2 [OF t]]]]
  from a t1 [unfolded r] t2 [unfolded r] show ?thesis by (intro conjI)
qed

subsection \<open>C5: the guard of \<open>blacklistedFieldExists\<close>\<close>

text \<open>
  C5. \<open>blacklistedFieldExists\<close> (the specification's \<open>anyCovered\<close>) returns false when the
  blacklist is empty or the field map has no key, whether the argument is given or left
  to its default, and it then calls the matcher on no field at all; and the matcher
  itself is false of every path under the empty blacklist.
\<close>

theorem C5_blacklistedFieldExists_guard:
  "blacklistedFieldExists (Some []) fields_arg = False
   \<and> blacklistedFieldExists_calls (Some []) fields_arg = []
   \<and> blacklistedFieldExists None fields_arg = False
   \<and> blacklistedFieldExists_calls None fields_arg = []
   \<and> blacklistedFieldExists blacklist_arg (Some []) = False
   \<and> blacklistedFieldExists_calls blacklist_arg (Some []) = []
   \<and> blacklistedFieldExists blacklist_arg None = False
   \<and> blacklistedFieldExists_calls blacklist_arg None = []
   \<and> fieldIsBlacklisted [] P = False"
  by (simp add: blacklistedFieldExists_def blacklistedFieldExists_calls_def Object_keys_def
        fieldIsBlacklisted_no_blacklist)

theorem C5_blacklistedFieldExists_guard_witness:
  "blacklistedFieldExists (Some []) (Some [(''foo'', JString ''bar'')]) = False
   \<and> blacklistedFieldExists_calls (Some []) (Some [(''foo'', JString ''bar'')]) = []
   \<and> blacklistedFieldExists (Some [''foo'']) (Some ([] :: jsval obj)) = False
   \<and> blacklistedFieldExists_calls (Some [''foo'']) (Some ([] :: jsval obj)) = []
   \<and> fieldIsBlacklisted [] ''foo.bar'' = False"
  using C5_blacklistedFieldExists_guard
          [of "Some [(''foo'', JString ''bar'')]" "Some [''foo'']" "''foo.bar''"]
        C5_blacklistedFieldExists_guard
          [of "Some ([] :: jsval obj)" "Some [''foo'']" "''foo.bar''"]
  by blast

subsection \<open>C6: how often a hook reads the clock\<close>

text \<open>
  C6. The claim: every hook invocation reads the current instant exactly once. It fails
  on the save hook of the later revision: with \<open>disableSaveHook\<close> set and
  \<open>forceCreateHook\<close> not, the guard returns through \<open>next()\<close> before \<open>new Date()\<close>, and
  the clock is not read at all.
\<close>

theorem C6_saveFunc_skipped_counterexample:
  "reads (clock (saveFunc ''createdAt'' ''updatedAt'' True False (fresh_document True)))
     = reads (clock (fresh_document True))
   \<and> reads (clock (saveFunc ''createdAt'' ''updatedAt'' True False (fresh_document True)))
     \<noteq> Suc (reads (clock (fresh_document True)))"
  by (simp add: saveFunc_skipped call_next_def)

text \<open>
  C6, amended. A hook invocation reads the current instant at most once: the save hook
  not at all when its guard skips it (the save hook is disabled and the document is not
  a new one being force-stamped) and exactly once otherwise, the update hook exactly
  once on every path, a throw included. So when the save hook stamps a new document,
  the created-field and the modified-field hold the same instant, the one reading; and
  when the update hook adds its clauses, the direct-set of the modified-field and the
  set-on-insert of the created-field hold the same instant, the one reading.
\<close>

theorem C6_clock_read_at_most_once:
  "reads (clock (saveFunc c u shouldDisableSaveHook shouldForceCreateHook st))
     = (if shouldDisableSaveHook
           \<and> (\<not> shouldForceCreateHook \<or> \<not> truthy (receiver st ''isNew''))
        then reads (clock st) else Suc (reads (clock st)))
   \<and> reads (clock (snd (updateFunc c u blacklist qst))) = Suc (reads (clock qst))
   \<and> (\<not> (shouldDisableSaveHook \<and> \<not> shouldForceCreateHook) \<and> truthy (receiver st ''isNew'')
        \<longrightarrow> receiver (saveFunc c u shouldDisableSaveHook shouldForceCreateHook st) c
              = JDate (time_at (clock st) (reads (clock st)))
          \<and> receiver (saveFunc c u shouldDisableSaveHook shouldForceCreateHook st) u
              = JDate (time_at (clock st) (reads (clock st))))
   \<and> (getUpdate (receiver qst) = Some uo
        \<and> \<not> anyCovered_spec (nonempty_entries blacklist) (map_of uo SET_OPERATOR)
        \<and> \<not> anyCovered_spec (nonempty_entries blacklist) (map_of uo SET_ON_INSERT_OPERATOR)
        \<longrightarrow> update_calls (receiver (snd (updateFunc c u blacklist qst)))
              = update_calls (receiver qst) @
                  [([], stamp_clauses_spec c u (time_at (clock qst) (reads (clock qst))))])"
proof (intro conjI impI)
  show "reads (clock (saveFunc c u shouldDisableSaveHook shouldForceCreateHook st))
     = (if shouldDisableSaveHook
           \<and> (\<not> shouldForceCreateHook \<or> \<not> truthy (receiver st ''isNew''))
        then reads (clock st) else Suc (reads (clock st)))"
  proof (cases "shouldDisableSaveHook
           \<and> (\<not> shouldForceCreateHook \<or> \<not> truthy (receiver st ''isNew''))")
    case True
    then show ?thesis by (simp add: saveFunc_skipped call_next_def)
  next
    case False
    show ?thesis
    proof (cases "truthy (receiver st ''isNew'')")
      case True
      with False show ?thesis
        by (simp add: saveFunc_new call_next_def snd_new_Date)
    next
      case old: False
      with False show ?thesis
        by (simp add: saveFunc_old call_next_def snd_new_Date)
    qed
  qed
next
  show "reads (clock (snd (updateFunc c u blacklist qst))) = Suc (reads (clock qst))"
  proof (cases "getUpdate (receiver qst)")
    case None
    then show ?thesis by (simp add: updateFunc_absent snd_new_Date)
  next
    case (Some uo')
    then show ?thesis by (simp add: updateFunc_present call_next_def snd_new_Date)
  qed
next
  assume h: "\<not> (shouldDisableSaveHook \<and> \<not> shouldForceCreateHook) \<and> truthy (receiver st ''isNew'')"
  then show "receiver (saveFunc c u shouldDisableSaveHook shouldForceCreateHook st) c
               = JDate (time_at (clock st) (reads (clock st)))"
    by (simp add: saveFunc_new call_next_def fst_new_Date)
  from h show "receiver (saveFunc c u shouldDisableSaveHook shouldForceCreateHook st) u
               = JDate (time_at (clock st) (reads (clock st)))"
    by (simp add: saveFunc_new call_next_def fst_new_Date)
next
  assume h: "getUpdate (receiver qst) = Some uo
        \<and> \<not> anyCovered_spec (nonempty_entries blacklist) (map_of uo SET_OPERATOR)
        \<and> \<not> anyCovered_spec (nonempty_entries blacklist) (map_of uo SET_ON_INSERT_OPERATOR)"
  then have g: "getUpdate (receiver qst) = Some uo" by blast
  from h show "update_calls (receiver (snd (updateFunc c u blacklist qst)))
              = update_calls (receiver qst) @
                  [([], stamp_clauses_spec c u (time_at (clock qst) (reads (clock qst))))]"
    by (simp add: updateFunc_present [OF g] call_next_def query_update_def fst_new_Date)
qed

theorem C6_clock_read_at_most_once_witness:
  "reads (clock (saveFunc ''createdAt'' ''updatedAt'' True True (fresh_document True))) = 1
   \<and> receiver (saveFunc ''createdAt'' ''updatedAt'' True True (fresh_document True)) ''createdAt''
       = JDate 1000
   \<and> receiver (saveFunc ''createdAt'' ''updatedAt'' True True (fresh_document True)) ''updatedAt''
       = JDate 1000
   \<and> reads (clock (snd (updateFunc ''createdAt'' ''updatedAt'' [''foo'']
         (fresh_query (Some [(''$set'', [(''bar'', JString ''baz'')])]))))) = 1
   \<and> update_calls (receiver (snd (updateFunc ''createdAt'' ''updatedAt'' [''foo'']
         (fresh_query (Some [(''$set'', [(''bar'', JString ''baz'')])])))))
       = [([], [(''$set'', [(''updatedAt'', JDate 1000)]),
                (''$setOnInsert'', [(''createdAt'', JDate 1000)])])]"
proof -
  let ?uo = "[(''$set'', [(''bar'', JString ''baz'')])]"
  note t = C6_clock_read_at_most_once
             [of "''createdAt''" "''updatedAt''" True True "fresh_document True"
                 "[''foo'']" "fresh_query (Some ?uo)" ?uo]
  have n: "truthy (receiver (fresh_document True) ''isNew'')"
    by (simp add: fresh_document_def)
  have g: "getUpdate (receiver (fresh_query (Some ?uo))) = Some ?uo"
    by (simp add: fresh_query_def)
  have a: "\<not> anyCovered_spec (nonempty_entries [''foo'']) (map_of ?uo SET_OPERATOR)"
    by code_simp
  have b: "\<not> anyCovered_spec (nonempty_entries [''foo'']) (map_of ?uo SET_ON_INSERT_OPERATOR)"
    by code_simp
  have d: "reads (clock (fresh_document True)) = 0"
          "time_at (clock (fresh_document True)) 0 = 1000"
    by (simp_all add: fresh_document_def ticking_clock_def)
  have q: "reads (clock (fresh_query (Some ?uo))) = 0"
          "time_at (clock (fresh_query (Some ?uo))) 0 = 1000"
          "update_calls (receiver (fresh_query (Some ?uo))) = []"
    by (simp_all add: fresh_query_def ticking_clock_def)
  from conjunct1 [OF t] n d
  have 1: "reads (clock (saveFunc ''createdAt'' ''updatedAt'' True True (fresh_document True))) = 1"
    by simp
  from conjunct1 [OF conjunct2 [OF t]] q
  have 2: "reads (clock (snd (updateFunc ''createdAt'' ''updatedAt'' [''foo'']
             (fresh_query (Some ?uo))))) = 1"
    by simp
  from conjunct1 [OF conjunct2 [OF conjunct2 [OF t]]] n d
  have 3: "receiver (saveFunc ''createdAt'' ''updatedAt'' True True (fresh_document True))
             ''createdAt'' = JDate 1000
         \<and> receiver (saveFunc ''createdAt'' ''updatedAt'' True True (fresh_document True))
             ''updatedAt'' = JDate 1000"
    by simp
  from conjunct2 [OF conjunct2 [OF conjunct2 [OF t]]] g a b q
  have 4: "update_calls (receiver (snd (updateFunc ''createdAt'' ''updatedAt'' [''foo'']
             (fresh_query (Some ?uo)))))
           = [([], [(''$set'', [(''updatedAt'', JDate 1000)]),
                    (''$setOnInsert'', [(''createdAt'', JDate 1000)])])]"
    by (simp add: stamp_clauses_spec_def)
  from 1 2 3 4 show ?thesis by blast
qed

subsection \<open>C7: the decision does not depend on the order of the keys\<close>

text \<open>
  C7. For every blacklist, two field maps whose keys are permutations of each other get
  the same answer from \<open>blacklistedFieldExists\<close>.
\<close>

theorem C7_blacklistedFieldExists_permutation:
  assumes "mset (Object_keys fs) = mset (Object_keys gs)"
  shows "blacklistedFieldExists blacklist_arg (Some fs)
           = blacklistedFieldExists blacklist_arg (Some gs)"
proof -
  from assms have s: "set (Object_keys fs) = set (Object_keys gs)"
    by (rule mset_eq_setD)
  then have e: "(Object_keys fs = []) = (Object_keys gs = [])"
    by (metis set_empty)
  show ?thesis
    by (simp add: blacklistedFieldExists_def some_iff s e)
qed

theorem C7_blacklistedFieldExists_permutation_witness:
  "mset (Object_keys [(''foo'', JString ''bar''), (''bar'', JString ''baz'')])
     = mset (Object_keys [(''bar'', JString ''baz''), (''foo'', JString ''bar'')])
   \<and> blacklistedFieldExists (Some [''foo''])
         (Some [(''foo'', JString ''bar''), (''bar'', JString ''baz'')])
       = blacklistedFieldExists (Some [''foo''])
           (Some [(''bar'', JString ''baz''), (''foo'', JString ''bar'')])"
proof -
  have h: "mset (Object_keys [(''foo'', JString ''bar''), (''bar'', JString ''baz'')])
             = mset (Object_keys [(''bar'', JString ''baz''), (''foo'', JString ''bar'')])"
    by (simp add: Object_keys_def)
  from h C7_blacklistedFieldExists_permutation [OF h, of "Some [''foo'']"]
  show ?thesis by blast
qed

subsection \<open>C8: attaching without a schema\<close>

text \<open>
  C8. Without a schema the constructor throws \<open>Schema is required.\<close> whatever the
  options are: no instance comes to be, and the schema calls made so far are the ones
  made before. So attaching the plugin, in either revision, ends in that error with no
  call of \<open>add\<close> or \<open>pre\<close> made: no hook is registered.
\<close>

theorem C8_no_schema_throws_first:
  "constructor None options_arg calls = (Inl Schema_is_required, calls)
   \<and> happyMongooseTimestamps None options_arg = (Some Schema_is_required, [])
   \<and> happyMongooseTimestamps_src None options_arg = (Some Schema_is_required, [])"
  by (simp add: constructor_def happyMongooseTimestamps_def happyMongooseTimestamps_src_def)

theorem C8_no_schema_throws_first_witness:
  "happyMongooseTimestamps None
       (Some (empty_options\<lparr>shouldUpdateSchema := True, opt_blacklist := Some [''foo'']\<rparr>))
     = (Some Schema_is_required, [])
   \<and> happyMongooseTimestamps_src None None = (Some Schema_is_required, [])"
  using C8_no_schema_throws_first
          [of "Some (empty_options\<lparr>shouldUpdateSchema := True, opt_blacklist := Some [''foo'']\<rparr>)" "[]"]
        C8_no_schema_throws_first [of None "[]"]
  by blast

subsection \<open>C9: when the clause extraction throws\<close>

text \<open>
  C9. \<open>getUpdateFields\<close> throws iff the operation is absent or the operator is absent
  (or the empty string, which is falsy too). Otherwise it returns, as it is, what the
  operation holds under that operator, \<open>updateOperation[operator]\<close>: the clause of that
  name when the operation has one; and when it has none, \<open>undefined\<close>, unless the name
  is that of a member of \<open>Object.prototype\<close>, which the read then finds.
\<close>

theorem C9_getUpdateFields_throws_iff:
  "((\<exists>e. getUpdateFields updateOperation operator = Inl e)
      = (updateOperation = None \<or> operator = None \<or> operator = Some []))
   \<and> (updateOperation = Some uo \<and> operator = Some name \<and> name \<noteq> []
        \<longrightarrow> getUpdateFields updateOperation operator = Inr (obj_get uo name))
   \<and> (updateOperation = Some uo \<and> operator = Some name \<and> name \<noteq> []
        \<and> map_of uo name = Some cl
        \<longrightarrow> getUpdateFields updateOperation operator = Inr (Own cl))
   \<and> (updateOperation = Some uo \<and> operator = Some name \<and> name \<noteq> []
        \<and> map_of uo name = None
        \<longrightarrow> getUpdateFields updateOperation operator
              = Inr (if name \<in> set Object_prototype then Inherited name else Missing))"
  by (auto simp: getUpdateFields_def obj_get_def split: option.splits)

theorem C9_getUpdateFields_witness:
  "getUpdateFields (Some [(''$set'', [(''foo'', JString ''bar'')])]) (Some ''$set'')
     = Inr (Own [(''foo'', JString ''bar'')])
   \<and> getUpdateFields (Some [(''$set'', [(''foo'', JString ''bar'')])]) (Some ''$setOnInsert'')
     = Inr Missing
   \<and> getUpdateFields (Some ([] :: update_op)) (Some ''toString'') = Inr (Inherited ''toString'')
   \<and> (\<exists>e. getUpdateFields (None :: update_op option) (Some ''$set'') = Inl e)
   \<and> (\<exists>e. getUpdateFields (Some [(''$set'', [(''foo'', JString ''bar'')])]) None = Inl e)"
proof -
  let ?uo = "[(''$set'', [(''foo'', JString ''bar'')])]"
  note t1 = C9_getUpdateFields_throws_iff
              [of "Some ?uo" "Some ''$set''" ?uo "''$set''" "[(''foo'', JString ''bar'')]"]
  note t2 = C9_getUpdateFields_throws_iff
              [of "Some ?uo" "Some ''$setOnInsert''" ?uo "''$setOnInsert''" "[]"]
  note t3 = C9_getUpdateFields_throws_iff
              [of "Some ([] :: update_op)" "Some ''toString''" "[]" "''toString''" "[]"]
  note t4 = C9_getUpdateFields_throws_iff
              [of "None :: update_op option" "Some ''$set''" "[]" "''$set''" "[]"]
  note t5 = C9_getUpdateFields_throws_iff [of "Some ?uo" "None" ?uo "''$set''" "[]"]
  have 1: "getUpdateFields (Some ?uo) (Some ''$set'') = Inr (Own [(''foo'', JString ''bar'')])"
    using conjunct1 [OF conjunct2 [OF conjunct2 [OF t1]]] by simp
  have 2: "getUpdateFields (Some ?uo) (Some ''$setOnInsert'') = Inr Missing"
    using conjunct2 [OF conjunct2 [OF conjunct2 [OF t2]]]
    by (simp add: Object_prototype_def)
  have 3: "getUpdateFields (Some ([] :: update_op)) (Some ''toString'')
             = Inr (Inherited ''toString'')"
    using conjunct2 [OF conjunct2 [OF conjunct2 [OF t3]]]
    by (simp add: Object_prototype_def)
  have 4: "\<exists>e. getUpdateFields (None :: update_op option) (Some ''$set'') = Inl e"
    using conjunct1 [OF t4] by simp
  have 5: "\<exists>e. getUpdateFields (Some ?uo) None = Inl e"
    using conjunct1 [OF t5] by simp
  from 1 2 3 4 5 show ?thesis by (intro conjI)
qed

subsection \<open>C10: an update with neither clause\<close>

text \<open>
  C10. When the query's update operation has neither a direct-set clause nor a
  set-on-insert clause, \<open>getUpdateFields\<close> returns an absent map for each without
  throwing, nothing counts as covered whatever the blacklist is, and the update hook
  adds the timestamp clauses and calls \<open>next\<close>: the modified-field is stamped even
  though the update writes no field.
\<close>

theorem C10_updateFunc_no_clauses:
  assumes "getUpdate (receiver st) = Some uo"
    and "map_of uo SET_OPERATOR = None"
    and "map_of uo SET_ON_INSERT_OPERATOR = None"
  shows "getUpdateFields (getUpdate (receiver st)) (Some SET_OPERATOR) = Inr Missing
         \<and> getUpdateFields (getUpdate (receiver st)) (Some SET_ON_INSERT_OPERATOR) = Inr Missing
         \<and> \<not> anyCovered_spec blacklist (map_of uo SET_OPERATOR)
         \<and> \<not> anyCovered_spec blacklist (map_of uo SET_ON_INSERT_OPERATOR)
         \<and> updateFunc c u blacklist st =
             (None,
              st\<lparr>clock := snd (new_Date (clock st)),
                 receiver :=
                   (receiver st)\<lparr>update_calls := update_calls (receiver st) @
                      [([], [(''$set'', [(u, JDate (fst (new_Date (clock st))))]),
                             (''$setOnInsert'', [(c, JDate (fst (new_Date (clock st))))])])]\<rparr>,
                 next_calls := Suc (next_calls st)\<rparr>)"
  using assms
  by (simp add: updateFunc_present [OF assms(1)] getUpdateFields_SET
        getUpdateFields_SET_ON_INSERT obj_get_plain [OF SET_OPERATOR_plain]
        obj_get_plain [OF SET_ON_INSERT_OPERATOR_plain] anyCovered_spec_def
        stamp_clauses_spec_def query_update_def call_next_def)

theorem C10_updateFunc_no_clauses_witness:
  "updateFunc ''createdAt'' ''updatedAt'' [''n'']
       (fresh_query (Some [(''$inc'', [(''n'', JNumber 1)])]))
     = (None,
        \<lparr>receiver =
           \<lparr>getUpdate = Some [(''$inc'', [(''n'', JNumber 1)])],
            update_calls =
              [([], [(''$set'', [(''updatedAt'', JDate 1000)]),
                     (''$setOnInsert'', [(''createdAt'', JDate 1000)])])]\<rparr>,
         clock = \<lparr>time_at = (\<lambda>n. 1000 + n), reads = 1\<rparr>,
         next_calls = 1\<rparr>)
   \<and> update_calls (receiver (snd (updateFunc ''createdAt'' ''updatedAt'' [''n'']
         (fresh_query (Some [])))))
     = [([], [(''$set'', [(''updatedAt'', JDate 1000)]),
              (''$setOnInsert'', [(''createdAt'', JDate 1000)])])]"
proof -
  let ?uo = "[(''$inc'', [(''n'', JNumber 1)])]"
  have g: "getUpdate (receiver (fresh_query (Some ?uo))) = Some ?uo"
    by (simp add: fresh_query_def)
  have a: "map_of ?uo SET_OPERATOR = None"
    by (simp add: SET_OPERATOR_def)
  have b: "map_of ?uo SET_ON_INSERT_OPERATOR = None"
    by (simp add: SET_ON_INSERT_OPERATOR_def)
  note t = C10_updateFunc_no_clauses [OF g a b, of "[''n'']" "''createdAt''" "''updatedAt''"]
  have g0: "getUpdate (receiver (fresh_query (Some []))) = Some []"
    by (simp add: fresh_query_def)
  have a0: "map_of ([] :: update_op) SET_OPERATOR = None" by simp
  have b0: "map_of ([] :: update_op) SET_ON_INSERT_OPERATOR = None" by simp
  note t0 = C10_updateFunc_no_clauses [OF g0 a0 b0, of "[''n'']" "''createdAt''" "''updatedAt''"]
  from conjunct2 [OF conjunct2 [OF conjunct2 [OF conjunct2 [OF t]]]]
  have 1: "updateFunc ''createdAt'' ''updatedAt'' [''n''] (fresh_query (Some ?uo))
     = (None,
        \<lparr>receiver =
           \<lparr>getUpdate = Some ?uo,
            update_calls =
              [([], [(''$set'', [(''updatedAt'', JDate 1000)]),
                     (''$setOnInsert'', [(''createdAt'', JDate 1000)])])]\<rparr>,
         clock = \<lparr>time_at = (\<lambda>n. 1000 + n), reads = 1\<rparr>,
         next_calls = 1\<rparr>)"
    by (simp add: fresh_query_def ticking_clock_def new_Date_def)
  from conjunct2 [OF conjunct2 [OF conjunct2 [OF conjunct2 [OF t0]]]]
  have 2: "update_calls (receiver (snd (updateFunc ''createdAt'' ''updatedAt'' [''n'']
         (fresh_query (Some [])))))
     = [([], [(''$set'', [(''updatedAt'', JDate 1000)]),
              (''$setOnInsert'', [(''createdAt'', JDate 1000)])])]"
    by (simp add: fresh_query_def ticking_clock_def new_Date_def)
  from 1 2 show ?thesis by blast
qed

end
